theory Spec2Isabelle
  imports
    Main
    "HOL-Library.Sublist"
    "HOL-Library.Char_ord"
    "HOL-Library.List_Lexorder"
    "HOL-Library.AList"
    "HOL-Library.Multiset"
begin

section \<open>Strings\<close>

text \<open>
  A Python \<open>str\<close> is modelled as a HOL \<open>string\<close>, whose characters are the code points
  below 256. On that range \<open>str.strip()\<close> removes the characters for which
  \<open>str.isspace\<close> holds (U+0009 to U+000D, U+001C to U+0020, U+0085, U+00A0) from both
  ends, and \<open>str.lower()\<close> maps A-Z and the capital letters U+00C0 to U+00DE (U+00D7,
  the multiplication sign, apart) to the code point 32 above, character by character.
  \<open>q in s\<close> on two strings is the contiguous-substring test, \<^const>\<open>sublist\<close>; \<open><\<close> on
  strings compares code points lexicographically, which is the order of
  \<open>HOL-Library.List_Lexorder\<close> over \<open>HOL-Library.Char_ord\<close>.
\<close>

definition is_space :: "char \<Rightarrow> bool" where
  "is_space c =
     (let n = (of_char c :: nat)
      in (9 \<le> n \<and> n \<le> 13) \<or> (28 \<le> n \<and> n \<le> 32) \<or> n = 133 \<or> n = 160)"

definition strip :: "string \<Rightarrow> string" where
  "strip s = rev (dropWhile is_space (rev (dropWhile is_space s)))"

definition lower_char :: "char \<Rightarrow> char" where
  "lower_char c =
     (let n = (of_char c :: nat)
      in if (65 \<le> n \<and> n \<le> 90) \<or> (192 \<le> n \<and> n \<le> 222 \<and> n \<noteq> 215)
         then char_of (n + 32) else c)"

definition lower :: "string \<Rightarrow> string" where
  "lower s = map lower_char s"

section \<open>The contact book and its environment\<close>

text \<open>
  \<open>self.contacts\<close> is a \<open>Dict[str, Dict[str, str]]\<close>. The inner dictionary always has the
  three keys \<open>phone\<close>, \<open>email\<close>, \<open>address\<close> and is a record here; the outer one is an
  association list in insertion order, because \<open>search_contact\<close> and the name lookup of
  \<open>update_contact\<close> and \<open>delete_contact\<close> iterate over it in that order.
  \<open>d[k] = v\<close> is \<^const>\<open>AList.update\<close> (an existing key keeps its place, a new one goes
  last), \<open>d[k]\<close> is \<^const>\<open>map_of\<close> with \<open>KeyError\<close> for \<^const>\<open>None\<close>, and \<open>del d[k]\<close> is
  \<^const>\<open>AList.delete\<close>.
\<close>

record details =
  phone :: string
  email :: string
  address :: string

type_synonym contacts = "(string \<times> details) list"

text \<open>
  The documents \<open>json.dump\<close> writes and \<open>json.load\<close> returns, up to the layout of the text:
  strings, objects as their members in the order of the text, and \<open>JOther\<close> for every
  other value (number, array, \<open>true\<close>, \<open>false\<close>, \<open>null\<close>).
\<close>

datatype json = JString string | JObject "(string \<times> json) list" | JOther

datatype exn =
  JSONDecodeError | FileNotFoundError | PermissionError | IsADirectoryError
  | UnicodeDecodeError | KeyError

text \<open>
  What \<open>open(filename, 'r')\<close> followed by \<open>json.load\<close> does on a path that exists: it
  returns the document the file holds, or it raises an exception.
\<close>

datatype stored = Holds json | Raises exn

text \<open>
  The state is the object (\<open>filename\<close>, \<open>contacts\<close>) together with its environment:
  \<open>files\<close> gives the file at each path (\<^const>\<open>None\<close> when \<open>os.path.exists\<close> is false),
  \<open>unwritable\<close> the paths on which \<open>open(filename, 'w')\<close> raises, and \<open>writes\<close> counts
  the files written so far.
\<close>

record state =
  filename :: string
  contacts :: contacts
  files :: "string \<Rightarrow> stored option"
  unwritable :: "string \<Rightarrow> bool"
  writes :: nat

subsection \<open>Serialisation\<close>

definition json_of_details :: "details \<Rightarrow> json" where
  "json_of_details d =
     JObject [(''phone'', JString (phone d)), (''email'', JString (email d)),
              (''address'', JString (address d))]"

definition json_of_contacts :: "contacts \<Rightarrow> json" where
  "json_of_contacts cs = JObject (map (\<lambda>(name, d). (name, json_of_details d)) cs)"

text \<open>
  \<open>json.load\<close> builds a \<open>dict\<close> from the members of an object one after the other, so a
  repeated key keeps its first place and its last value.
\<close>

definition py_dict :: "('k \<times> 'v) list \<Rightarrow> ('k \<times> 'v) list" where
  "py_dict ps = fold (\<lambda>(k, v). AList.update k v) ps []"

fun the_string :: "json option \<Rightarrow> string option" where
  "the_string (Some (JString s)) = Some s"
| "the_string _ = None"

definition details_of_json :: "json \<Rightarrow> details option" where
  "details_of_json j =
     (case j of
        JObject ps \<Rightarrow>
          (let d = py_dict ps in
           if set (map fst d) = {''phone'', ''email'', ''address''} then
             (case (the_string (map_of d ''phone''), the_string (map_of d ''email''),
                    the_string (map_of d ''address'')) of
                (Some p, Some e, Some a) \<Rightarrow> Some \<lparr>phone = p, email = e, address = a\<rparr>
              | _ \<Rightarrow> None)
           else None)
      | _ \<Rightarrow> None)"

fun all_details :: "(string \<times> json) list \<Rightarrow> contacts option" where
  "all_details [] = Some []"
| "all_details ((name, j) # ps) =
     (case details_of_json j of
        None \<Rightarrow> None
      | Some d \<Rightarrow> map_option ((#) (name, d)) (all_details ps))"

text \<open>
  The documents that are a \<open>Dict[str, Dict[str, str]]\<close> with the three fields, as a value
  of the store's type; \<^const>\<open>None\<close> for every other document. An inner object may
  list its three members in any order: the record does not keep that order, which no
  operation reads.
\<close>

definition contacts_of_json :: "json \<Rightarrow> contacts option" where
  "contacts_of_json j =
     (case j of JObject ps \<Rightarrow> all_details (py_dict ps) | _ \<Rightarrow> None)"

subsection \<open>Loading and saving\<close>

text \<open>
  A run of the program ends in a value or in an exception that nothing catches
  (\<open>Raised\<close>). \<open>load_contacts\<close> binds \<open>self.contacts\<close> to whatever \<open>json.load\<close> returns; a
  document that is not a value of the store's type is \<open>Untyped\<close>.
\<close>

datatype abort = Raised exn | Untyped json

definition load_contacts :: "state \<Rightarrow> abort + state" where
  "load_contacts st =
     (case files st (filename st) of
        None \<Rightarrow> Inr st
      | Some (Raises e) \<Rightarrow>
          (if e = JSONDecodeError \<or> e = FileNotFoundError
           then Inr (st\<lparr>contacts := []\<rparr>)
           else Inl (Raised e))
      | Some (Holds j) \<Rightarrow>
          (case contacts_of_json j of
             None \<Rightarrow> Inl (Untyped j)
           | Some cs \<Rightarrow> Inr (st\<lparr>contacts := cs\<rparr>)))"

definition save_contacts :: "state \<Rightarrow> abort + state" where
  "save_contacts st =
     (if unwritable st (filename st) then Inl (Raised PermissionError)
      else Inr (st\<lparr>files := (files st)(filename st \<mapsto> Holds (json_of_contacts (contacts st))),
                  writes := Suc (writes st)\<rparr>))"

text \<open>\<open>ContactBook(filename)\<close> in the environment of \<open>env\<close>: \<open>__init__\<close>.\<close>

definition ContactBook :: "string \<Rightarrow> state \<Rightarrow> abort + state" where
  "ContactBook fname env = load_contacts (env\<lparr>filename := fname, contacts := []\<rparr>)"

section \<open>The operations\<close>

text \<open>
  Each operation takes the lines the user answers to its prompts, untrimmed, as
  arguments, in the order of the prompts; a line behind a \<open>return\<close> is never read. What an
  operation prints is its \<open>outcome\<close>, one constructor for each closing message:
  \<^item> \<open>NameEmpty\<close>: \<open>ERROR: Name cannot be empty!\<close>
  \<^item> \<open>AlreadyExists name\<close>: \<open>ERROR: Contact 'name' already exists!\<close>
  \<^item> \<open>PhoneRequired\<close>: \<open>ERROR: Phone number is required!\<close>
  \<^item> \<open>Added name\<close>: \<open>SUCCESS: Contact 'name' added successfully!\<close>
  \<^item> \<open>NoContactsFound\<close>, \<open>NoContactsToSearch\<close>, \<open>NoContactsToUpdate\<close>,
    \<open>NoContactsToDelete\<close>: \<open>No contacts found!\<close>, \<open>No contacts to search!\<close>,
    \<open>No contacts to update!\<close>, \<open>No contacts to delete!\<close>
  \<^item> \<open>ContactList rows n\<close>: the table of \<open>rows\<close> and \<open>Total contacts: n\<close>
  \<^item> \<open>QueryEmpty\<close>: \<open>ERROR: Search query cannot be empty!\<close>
  \<^item> \<open>Found rows\<close>: \<open>Found n match(es):\<close> and the table of \<open>rows\<close>
  \<^item> \<open>NoMatch\<close>: \<open>No contacts found matching your search!\<close>
  \<^item> \<open>NotFound name\<close>: \<open>ERROR: Contact 'name' not found!\<close>
  \<^item> \<open>Updated name\<close>, \<open>Deleted name\<close>: \<open>SUCCESS: Contact 'name' updated successfully!\<close>,
    \<open>SUCCESS: Contact 'name' deleted successfully!\<close>
  \<^item> \<open>Cancelled\<close>: \<open>Deletion cancelled.\<close>
  \<^item> \<open>InvalidChoice\<close>: \<open>ERROR: Invalid choice! Please select 1-6.\<close>
  \<^item> \<open>Goodbye\<close>: \<open>Thank you for using Contact Book Manager!\<close>
\<close>

datatype outcome =
  NameEmpty | AlreadyExists string | PhoneRequired | Added string
  | NoContactsFound | ContactList contacts nat
  | NoContactsToSearch | QueryEmpty | Found contacts | NoMatch
  | NoContactsToUpdate | NoContactsToDelete | NotFound string
  | Updated string | Deleted string | Cancelled
  | InvalidChoice | Goodbye

text \<open>
  The two error classes of the specification: a \<open>ValidationError\<close> is an empty required
  field, a duplicate name or an empty search query; a \<open>NotFoundError\<close> is a name that
  resolves to no contact.
\<close>

fun ValidationError :: "outcome \<Rightarrow> bool" where
  "ValidationError NameEmpty = True"
| "ValidationError (AlreadyExists _) = True"
| "ValidationError PhoneRequired = True"
| "ValidationError QueryEmpty = True"
| "ValidationError _ = False"

fun NotFoundError :: "outcome \<Rightarrow> bool" where
  "NotFoundError (NotFound _) = True"
| "NotFoundError _ = False"

definition add_contact ::
  "string \<Rightarrow> string \<Rightarrow> string \<Rightarrow> string \<Rightarrow> state \<Rightarrow> abort + outcome \<times> state" where
  "add_contact name_in phone_in email_in address_in st =
     (let name = strip name_in in
      if name = [] then Inr (NameEmpty, st)
      else if lower name \<in> set (map (\<lambda>k. lower k) (map fst (contacts st)))
      then Inr (AlreadyExists name, st)
      else
        let phone = strip phone_in; email = strip email_in; address = strip address_in in
        if phone = [] then Inr (PhoneRequired, st)
        else
          (case save_contacts
                  (st\<lparr>contacts :=
                        AList.update name \<lparr>phone = phone, email = email, address = address\<rparr>
                          (contacts st)\<rparr>) of
             Inl e \<Rightarrow> Inl e
           | Inr st' \<Rightarrow> Inr (Added name, st')))"

text \<open>
  \<open>sorted(self.contacts.items())\<close> compares the pairs by name first and, the keys of a
  dictionary being distinct, by name only.
\<close>

definition view_contacts :: "state \<Rightarrow> outcome" where
  "view_contacts st =
     (if contacts st = [] then NoContactsFound
      else ContactList (sort_key fst (contacts st)) (length (contacts st)))"

definition search_contact :: "string \<Rightarrow> state \<Rightarrow> outcome" where
  "search_contact query_in st =
     (if contacts st = [] then NoContactsToSearch
      else
        let query = lower (strip query_in) in
        if query = [] then QueryEmpty
        else
          let matches =
                filter (\<lambda>(name, details).
                          sublist query (lower name) \<or> sublist query (phone details)
                          \<or> sublist query (lower (email details)))
                  (contacts st)
          in if matches \<noteq> [] then Found matches else NoMatch)"

text \<open>
  The loop that looks a name up in \<open>update_contact\<close> and \<open>delete_contact\<close> (the
  specification's \<open>findByName\<close>): the first key, in the order of the dictionary, whose
  lower case is that of the name.
\<close>

definition actual_name :: "string \<Rightarrow> contacts \<Rightarrow> string option" where
  "actual_name name cs = find (\<lambda>contact_name. lower contact_name = lower name) (map fst cs)"

text \<open>\<open>not actual_name\<close> holds of \<open>None\<close> and of the empty string.\<close>

definition update_contact ::
  "string \<Rightarrow> string \<Rightarrow> string \<Rightarrow> string \<Rightarrow> state \<Rightarrow> abort + outcome \<times> state" where
  "update_contact name_in phone_in email_in address_in st =
     (if contacts st = [] then Inr (NoContactsToUpdate, st)
      else
        let name = strip name_in in
        (case actual_name name (contacts st) of
          None \<Rightarrow> Inr (NotFound name, st)
        | Some k \<Rightarrow>
            if k = [] then Inr (NotFound name, st)
            else
              (case map_of (contacts st) k of
                 None \<Rightarrow> Inl (Raised KeyError)
               | Some current \<Rightarrow>
                   let new_phone = strip phone_in; new_email = strip email_in;
                       new_address = strip address_in;
                       current = (if new_phone \<noteq> [] then current\<lparr>phone := new_phone\<rparr> else current);
                       current = (if new_email \<noteq> [] then current\<lparr>email := new_email\<rparr> else current);
                       current =
                         (if new_address \<noteq> [] then current\<lparr>address := new_address\<rparr> else current)
                   in (case save_contacts
                             (st\<lparr>contacts := AList.update k current (contacts st)\<rparr>) of
                         Inl e \<Rightarrow> Inl e
                       | Inr st' \<Rightarrow> Inr (Updated k, st')))))"

definition delete_contact :: "string \<Rightarrow> string \<Rightarrow> state \<Rightarrow> abort + outcome \<times> state" where
  "delete_contact name_in confirm_in st =
     (if contacts st = [] then Inr (NoContactsToDelete, st)
      else
        let name = strip name_in in
        (case actual_name name (contacts st) of
          None \<Rightarrow> Inr (NotFound name, st)
        | Some k \<Rightarrow>
            if k = [] then Inr (NotFound name, st)
            else
              (case map_of (contacts st) k of
                 None \<Rightarrow> Inl (Raised KeyError)
               | Some details \<Rightarrow>
                   let confirm = lower (strip confirm_in) in
                   if confirm = ''y'' \<or> confirm = ''yes'' then
                     (case save_contacts (st\<lparr>contacts := AList.delete k (contacts st)\<rparr>) of
                        Inl e \<Rightarrow> Inl e
                      | Inr st' \<Rightarrow> Inr (Deleted k, st'))
                   else Inr (Cancelled, st))))"

subsection \<open>The menu loop\<close>

text \<open>
  One turn of \<open>run\<close> reads a choice and the answers to the prompts of the operation it
  selects: \<open>Add\<close> is choice 1, \<open>View\<close> 2, \<open>Search\<close> 3, \<open>Update\<close> 4, \<open>Delete\<close> 5, \<open>Exit\<close> 6
  and \<open>Invalid\<close> any other line. \<open>run\<close> serves the turns in order until \<open>Exit\<close>; its value
  is what was printed and the state the loop is left in.
\<close>

datatype command =
  Add string string string string | View | Search string
  | Update string string string string | Delete string string | Exit | Invalid string

fun serve :: "command \<Rightarrow> state \<Rightarrow> abort + outcome \<times> state" where
  "serve (Add name_in phone_in email_in address_in) st =
     add_contact name_in phone_in email_in address_in st"
| "serve View st = Inr (view_contacts st, st)"
| "serve (Search query_in) st = Inr (search_contact query_in st, st)"
| "serve (Update name_in phone_in email_in address_in) st =
     update_contact name_in phone_in email_in address_in st"
| "serve (Delete name_in confirm_in) st = delete_contact name_in confirm_in st"
| "serve Exit st = Inr (Goodbye, st)"
| "serve (Invalid choice) st = Inr (InvalidChoice, st)"

fun run :: "command list \<Rightarrow> state \<Rightarrow> abort + outcome list \<times> state" where
  "run [] st = Inr ([], st)"
| "run (Exit # cmds) st = Inr ([Goodbye], st)"
| "run (cmd # cmds) st =
     (case serve cmd st of
        Inl e \<Rightarrow> Inl e
      | Inr (out, st') \<Rightarrow>
          (case run cmds st' of
             Inl e \<Rightarrow> Inl e
           | Inr (outs, st'') \<Rightarrow> Inr (out # outs, st'')))"

section \<open>Invariants\<close>

text \<open>
  The keys of a dictionary are distinct; the invariant of the store is that they are
  distinct in lower case too.
\<close>

definition unique_names :: "contacts \<Rightarrow> bool" where
  "unique_names cs = distinct (map (\<lambda>k. lower k) (map fst cs))"

section \<open>Reading an outcome\<close>

text \<open>The names of a printed contact list, top to bottom, and the rows of a search.\<close>

fun names_listed :: "outcome \<Rightarrow> string list" where
  "names_listed (ContactList rows n) = map fst rows"
| "names_listed _ = []"

fun found :: "outcome \<Rightarrow> contacts" where
  "found (Found rows) = rows"
| "found _ = []"

section \<open>Example states\<close>

definition no_files :: "string \<Rightarrow> stored option" where
  "no_files = (\<lambda>path. None)"

definition all_writable :: "string \<Rightarrow> bool" where
  "all_writable = (\<lambda>path. False)"

definition alice :: details where
  "alice = \<lparr>phone = ''123'', email = ''a@x.com'', address = ''1 Main St''\<rparr>"

definition empty_book :: state where
  "empty_book =
     \<lparr>filename = ''contacts.json'', contacts = [], files = no_files,
      unwritable = all_writable, writes = 0\<rparr>"

definition alice_book :: state where
  "alice_book =
     \<lparr>filename = ''contacts.json'', contacts = [(''Alice'', alice)],
      files = no_files(''contacts.json'' \<mapsto> Holds (json_of_contacts [(''Alice'', alice)])),
      unwritable = all_writable, writes = 1\<rparr>"

definition bob :: details where
  "bob = \<lparr>phone = ''555'', email = ''bob@example.com'', address = []\<rparr>"

definition bob_book :: state where
  "bob_book =
     \<lparr>filename = ''contacts.json'', contacts = [(''Bob'', bob)],
      files = no_files(''contacts.json'' \<mapsto> Holds (json_of_contacts [(''Bob'', bob)])),
      unwritable = all_writable, writes = 1\<rparr>"

definition bob_alice_book :: state where
  "bob_alice_book =
     \<lparr>filename = ''contacts.json'', contacts = [(''Bob'', bob), (''alice'', alice)],
      files = no_files(''contacts.json'' \<mapsto>
                Holds (json_of_contacts [(''Bob'', bob), (''alice'', alice)])),
      unwritable = all_writable, writes = 2\<rparr>"

text \<open>A file that is not JSON, and a file that may not be read.\<close>

definition garbled_book :: state where
  "garbled_book =
     alice_book\<lparr>files := no_files(''contacts.json'' \<mapsto> Raises JSONDecodeError)\<rparr>"

definition locked_book :: state where
  "locked_book =
     empty_book\<lparr>files := no_files(''contacts.json'' \<mapsto> Raises PermissionError)\<rparr>"

section \<open>Evaluation on literals\<close>

lemma eq_char_of_iff: "c = char_of (n::nat) \<longleftrightarrow> take_bit 8 n = of_char c"
  using char_of_eq_iff [of n c] by auto

lemmas string_eval =
  strip_def is_space_def lower_def lower_char_def char_of_eq_iff eq_char_of_iff

lemma alice_book_facts:
  "contacts alice_book = [(''Alice'', alice)]"
  "filename alice_book = ''contacts.json''"
  "\<not> unwritable alice_book (filename alice_book)"
  "contacts alice_book \<noteq> []"
  by (simp_all add: alice_book_def all_writable_def)

lemma ALICE_matches:
  "strip ''ALICE'' = ''ALICE''" "lower ''ALICE'' = lower ''Alice''" "strip ''ALICE'' \<noteq> []"
  by (simp_all add: string_eval)

lemma ALICE_key: "\<exists>k \<in> fst ` set (contacts alice_book). lower k = lower (strip ''ALICE'')"
  by (simp add: alice_book_facts ALICE_matches)

section \<open>Dictionaries, names and saving\<close>

lemma update_fresh: "k \<notin> fst ` set al \<Longrightarrow> AList.update k v al = al @ [(k, v)]"
  by (induction al) auto

lemma key_has_details:
  assumes "k \<in> fst ` set cs"
  shows "\<exists>v. map_of cs k = Some v"
  using assms by (cases "map_of cs k") (auto simp: map_of_eq_None_iff)

lemma lower_Nil_iff: "lower s = [] \<longleftrightarrow> s = []"
  by (simp add: lower_def)

lemma lower_eq_nonempty:
  assumes "lower k = lower m" and "m \<noteq> []"
  shows "k \<noteq> []"
proof
  assume "k = []"
  with assms(1) have "lower m = []" by (simp add: lower_def)
  with assms(2) show False by (simp add: lower_def)
qed

lemma duplicate_name_iff:
  "lower name \<in> set (map (\<lambda>k. lower k) (map fst cs)) \<longleftrightarrow>
     (\<exists>k \<in> fst ` set cs. lower k = lower name)"
  by force

lemma fresh_key:
  assumes "\<forall>k \<in> fst ` set cs. lower k \<noteq> lower name"
  shows "name \<notin> fst ` set cs"
  using assms by blast

lemma actual_name_None:
  "actual_name name cs = None \<longleftrightarrow> (\<forall>k \<in> fst ` set cs. lower k \<noteq> lower name)"
  by (auto simp: actual_name_def find_None_iff)

lemma actual_name_Some:
  assumes "actual_name name cs = Some k"
  shows "k \<in> fst ` set cs" and "lower k = lower name"
  using assms by (auto simp: actual_name_def find_Some_iff)

lemma actual_name_found:
  assumes "\<exists>k \<in> fst ` set cs. lower k = lower name"
  shows "\<exists>k. actual_name name cs = Some k"
  using assms actual_name_None [of name cs] by (cases "actual_name name cs") auto

lemma save_contacts_writable:
  assumes "\<not> unwritable st (filename st)"
  shows "save_contacts (st\<lparr>contacts := cs\<rparr>) =
     Inr (st\<lparr>contacts := cs, files := (files st)(filename st \<mapsto> Holds (json_of_contacts cs)),
             writes := Suc (writes st)\<rparr>)"
  using assms by (simp add: save_contacts_def)

section \<open>Adding a contact\<close>

text \<open>
  C1. \<open>add_contact\<close> ends in a \<open>ValidationError\<close> exactly when the trimmed name is empty,
  or a key of the store has the lower case of the trimmed name, or the trimmed phone is
  empty; and then the whole state is the one it started from: the contacts, hence their
  number, the files and the count of writes.
\<close>

theorem add_contact_ValidationError:
  "((\<exists>out st'. add_contact n p e a st = Inr (out, st') \<and> ValidationError out) \<longleftrightarrow>
      strip n = [] \<or> (\<exists>k \<in> fst ` set (contacts st). lower k = lower (strip n))
      \<or> strip p = [])
   \<and> (\<forall>out st'. add_contact n p e a st = Inr (out, st') \<and> ValidationError out \<longrightarrow> st' = st)"
  unfolding add_contact_def Let_def duplicate_name_iff
  by (auto simp: save_contacts_def split: if_splits sum.splits)

theorem add_contact_ValidationError_witness:
  "\<exists>out. add_contact ''ALICE'' ''555'' [] [] alice_book = Inr (out, alice_book)
      \<and> ValidationError out"
proof -
  have "lower ''Alice'' = lower (strip ''ALICE'')"
    by (simp add: string_eval)
  then have "\<exists>k \<in> fst ` set (contacts alice_book). lower k = lower (strip ''ALICE'')"
    by (simp add: alice_book_def)
  with add_contact_ValidationError [of "''ALICE''" "''555''" "[]" "[]" alice_book]
  show ?thesis by blast
qed

section \<open>Saving and loading\<close>

lemma fold_update_fresh:
  "distinct (map fst ps) \<Longrightarrow> fst ` set ps \<inter> fst ` set acc = {} \<Longrightarrow>
   fold (\<lambda>(k, v). AList.update k v) ps acc = acc @ ps"
proof (induction ps arbitrary: acc)
  case Nil
  then show ?case by simp
next
  case (Cons p ps)
  obtain k v where p: "p = (k, v)" by (cases p)
  from Cons.prems p have fresh: "k \<notin> fst ` set acc" by auto
  from Cons.prems p have "fst ` set ps \<inter> fst ` set (acc @ [(k, v)]) = {}"
    by auto
  with Cons.IH [of "acc @ [(k, v)]"] Cons.prems
  have "fold (\<lambda>(k, v). AList.update k v) ps (acc @ [(k, v)]) = (acc @ [(k, v)]) @ ps"
    by simp
  with fresh p show ?case by (simp add: update_fresh)
qed

lemma py_dict_distinct: "distinct (map fst ps) \<Longrightarrow> py_dict ps = ps"
  using fold_update_fresh [of ps "[]"] by (simp add: py_dict_def)

lemma details_of_json_of_details: "details_of_json (json_of_details d) = Some d"
  by (simp add: details_of_json_def json_of_details_def py_dict_def insert_commute)

lemma all_details_json:
  "all_details (map (\<lambda>(name, d). (name, json_of_details d)) cs) = Some cs"
  by (induction cs) (auto simp: details_of_json_of_details)

lemma keys_json_members:
  "map fst (map (\<lambda>(name, d). (name, json_of_details d)) cs) = map fst cs"
  by (induction cs) auto

lemma contacts_of_json_of_contacts:
  assumes "distinct (map fst cs)"
  shows "contacts_of_json (json_of_contacts cs) = Some cs"
proof -
  from assms have "distinct (map fst (map (\<lambda>(name, d). (name, json_of_details d)) cs))"
    by (simp only: keys_json_members)
  then have "py_dict (map (\<lambda>(name, d). (name, json_of_details d)) cs)
      = map (\<lambda>(name, d). (name, json_of_details d)) cs"
    by (rule py_dict_distinct)
  then show ?thesis
    by (simp add: contacts_of_json_def json_of_contacts_def all_details_json)
qed

text \<open>
  C2. For every store (a dictionary, so its keys are distinct) whose file can be
  written, \<open>save_contacts\<close> returns and leaves the document of the contacts in the file.
  A fresh \<open>ContactBook\<close> on the same file name, made in any state that has that file,
  whatever contacts that state held before, then holds the very same contacts: the same
  names, in the same order, each with the same phone, email and address. So does any
  store of that file name that calls \<open>load_contacts\<close>.
\<close>

theorem save_load_roundtrip:
  assumes "distinct (map fst (contacts st))" and "\<not> unwritable st (filename st)"
  shows "\<exists>st'. save_contacts st = Inr st'
           \<and> files st' (filename st) = Some (Holds (json_of_contacts (contacts st)))
           \<and> (\<forall>env. files env (filename st) = files st' (filename st) \<longrightarrow>
                 (\<exists>st''. ContactBook (filename st) env = Inr st''
                    \<and> contacts st'' = contacts st
                    \<and> map_of (contacts st'') = map_of (contacts st)
                    \<and> filename st'' = filename st))
           \<and> (\<forall>st0. filename st0 = filename st
                       \<and> files st0 (filename st) = files st' (filename st) \<longrightarrow>
                 load_contacts st0 = Inr (st0\<lparr>contacts := contacts st\<rparr>))"
proof -
  let ?st' = "st\<lparr>files := (files st)(filename st \<mapsto> Holds (json_of_contacts (contacts st))),
                  writes := Suc (writes st)\<rparr>"
  from assms(2) have saved: "save_contacts st = Inr ?st'"
    by (simp add: save_contacts_def)
  have held: "files ?st' (filename st) = Some (Holds (json_of_contacts (contacts st)))"
    by simp
  have parsed: "contacts_of_json (json_of_contacts (contacts st)) = Some (contacts st)"
    using assms(1) by (rule contacts_of_json_of_contacts)
  have fresh: "\<forall>env. files env (filename st) = files ?st' (filename st) \<longrightarrow>
                 (\<exists>st''. ContactBook (filename st) env = Inr st''
                    \<and> contacts st'' = contacts st
                    \<and> map_of (contacts st'') = map_of (contacts st)
                    \<and> filename st'' = filename st)"
    by (simp add: ContactBook_def load_contacts_def parsed)
  have load: "\<forall>st0. filename st0 = filename st
                       \<and> files st0 (filename st) = files ?st' (filename st) \<longrightarrow>
                 load_contacts st0 = Inr (st0\<lparr>contacts := contacts st\<rparr>)"
    by (simp add: load_contacts_def parsed)
  show ?thesis
    apply (rule exI [of _ ?st'])
    apply (intro conjI)
       apply (rule saved)
      apply (rule held)
     apply (rule fresh)
    apply (rule load)
    done
qed

theorem save_load_roundtrip_witness:
  "\<exists>st' st''. save_contacts (alice_book\<lparr>files := no_files\<rparr>) = Inr st'
      \<and> files st' ''contacts.json'' = Some (Holds (json_of_contacts [(''Alice'', alice)]))
      \<and> ContactBook ''contacts.json'' (st'\<lparr>contacts := [(''Bob'', bob)]\<rparr>) = Inr st''
      \<and> contacts st'' = [(''Alice'', alice)]"
proof -
  let ?st = "alice_book\<lparr>files := no_files\<rparr>"
  have keys: "distinct (map fst (contacts ?st))"
    by (simp add: alice_book_def)
  have writable: "\<not> unwritable ?st (filename ?st)"
    by (simp add: alice_book_def all_writable_def)
  have f: "filename ?st = ''contacts.json''" and c: "contacts ?st = [(''Alice'', alice)]"
    by (simp_all add: alice_book_def)
  from save_load_roundtrip [OF keys writable] obtain st' where
    s: "save_contacts ?st = Inr st'"
    and h: "files st' (filename ?st) = Some (Holds (json_of_contacts (contacts ?st)))"
    and l: "\<forall>env. files env (filename ?st) = files st' (filename ?st) \<longrightarrow>
                 (\<exists>st''. ContactBook (filename ?st) env = Inr st''
                    \<and> contacts st'' = contacts ?st
                    \<and> map_of (contacts st'') = map_of (contacts ?st)
                    \<and> filename st'' = filename ?st)"
    by blast
  have "files (st'\<lparr>contacts := [(''Bob'', bob)]\<rparr>) (filename ?st) = files st' (filename ?st)"
    by simp
  with l obtain st'' where
    "ContactBook (filename ?st) (st'\<lparr>contacts := [(''Bob'', bob)]\<rparr>) = Inr st''"
    and "contacts st'' = contacts ?st"
    by blast
  with s h show ?thesis
    unfolding f c by blast
qed

text \<open>
  C3, as the code has it. A \<open>ContactBook\<close> made where the file does not exist is empty.
  \<open>load_contacts\<close> empties the store, and raises nothing, when reading the file raises
  \<open>JSONDecodeError\<close> or \<open>FileNotFoundError\<close>, the two exceptions its \<open>except\<close> clause names;
  every other exception of the read leaves \<open>load_contacts\<close> uncaught. On a file that
  holds a mapping of contacts the store becomes that mapping.
\<close>

theorem load_contacts_cases:
  "(files env fname = None \<longrightarrow>
      ContactBook fname env = Inr (env\<lparr>filename := fname, contacts := []\<rparr>))
   \<and> (files st (filename st) = Some (Raises e) \<and> (e = JSONDecodeError \<or> e = FileNotFoundError)
        \<longrightarrow> load_contacts st = Inr (st\<lparr>contacts := []\<rparr>))
   \<and> (files st (filename st) = Some (Raises e) \<and> e \<noteq> JSONDecodeError \<and> e \<noteq> FileNotFoundError
        \<longrightarrow> load_contacts st = Inl (Raised e))
   \<and> (files st (filename st) = Some (Holds j) \<and> contacts_of_json j = Some cs
        \<longrightarrow> load_contacts st = Inr (st\<lparr>contacts := cs\<rparr>))"
  by (simp add: ContactBook_def load_contacts_def)

theorem load_contacts_cases_witness:
  "ContactBook ''contacts.json'' empty_book = Inr empty_book
   \<and> load_contacts garbled_book = Inr (garbled_book\<lparr>contacts := []\<rparr>)
   \<and> load_contacts locked_book = Inl (Raised PermissionError)
   \<and> load_contacts alice_book = Inr alice_book"
proof -
  have 1: "files empty_book ''contacts.json'' = None"
    by (simp add: empty_book_def no_files_def)
  have 2: "files garbled_book (filename garbled_book) = Some (Raises JSONDecodeError)"
    by (simp add: garbled_book_def alice_book_def)
  have 3: "files locked_book (filename locked_book) = Some (Raises PermissionError)"
    by (simp add: locked_book_def empty_book_def)
  have 4: "files alice_book (filename alice_book)
      = Some (Holds (json_of_contacts [(''Alice'', alice)]))"
    by (simp add: alice_book_def)
  have 5: "contacts_of_json (json_of_contacts [(''Alice'', alice)]) = Some [(''Alice'', alice)]"
    by (rule contacts_of_json_of_contacts) simp
  have a: "ContactBook ''contacts.json'' empty_book = Inr empty_book"
    using load_contacts_cases [of empty_book "''contacts.json''"] 1
    by (simp add: empty_book_def)
  have b: "load_contacts garbled_book = Inr (garbled_book\<lparr>contacts := []\<rparr>)"
    using load_contacts_cases [of _ _ garbled_book JSONDecodeError] 2 by simp
  have c: "load_contacts locked_book = Inl (Raised PermissionError)"
    using load_contacts_cases [of _ _ locked_book PermissionError] 3 by simp
  have d: "load_contacts alice_book = Inr alice_book"
    using load_contacts_cases [of _ _ alice_book _ "json_of_contacts [(''Alice'', alice)]"
        "[(''Alice'', alice)]"] 4 5
    by (simp add: alice_book_def)
  from a b c d show ?thesis by simp
qed

text \<open>
  C3 as stated fails on a file that exists and may not be read: \<open>open\<close> raises
  \<open>PermissionError\<close>, which the \<open>except\<close> clause does not name, so \<open>load_contacts\<close> raises
  instead of leaving an empty store.
\<close>

theorem load_contacts_PermissionError:
  "files locked_book (filename locked_book) = Some (Raises PermissionError)
   \<and> load_contacts locked_book = Inl (Raised PermissionError)
   \<and> load_contacts locked_book \<noteq> Inr (locked_book\<lparr>contacts := []\<rparr>)"
  by (simp add: load_contacts_def locked_book_def empty_book_def)

section \<open>Viewing the contacts\<close>

lemma add_bob:
  "add_contact ''Bob'' ''555'' ''bob@example.com'' [] empty_book = Inr (Added ''Bob'', bob_book)"
  by (simp add: add_contact_def save_contacts_def empty_book_def bob_book_def bob_def
      all_writable_def string_eval Let_def)

lemma add_alice:
  "add_contact ''alice'' ''123'' ''a@x.com'' ''1 Main St'' bob_book
     = Inr (Added ''alice'', bob_alice_book)"
  by (simp add: add_contact_def save_contacts_def bob_alice_book_def bob_book_def alice_def
      all_writable_def string_eval Let_def)

lemma view_bob_alice: "names_listed (view_contacts bob_alice_book) = [''Bob'', ''alice'']"
  by (simp add: view_contacts_def bob_alice_book_def)

text \<open>
  C4, as the code has it. On a store that is not empty \<open>view_contacts\<close> lists every
  contact once, in ascending order of the names compared code point by code point, and
  prints their number; on the empty store it prints \<open>No contacts found!\<close>. In that order
  a capital letter comes before every small one: of the contacts \<open>Bob\<close> and \<open>alice\<close>,
  \<open>Bob\<close> is listed first.
\<close>

theorem view_contacts_sorted:
  "(contacts st \<noteq> [] \<longrightarrow>
      (\<exists>rows. view_contacts st = ContactList rows (length (contacts st))
         \<and> mset rows = mset (contacts st) \<and> sorted (map fst rows)))
   \<and> (contacts st = [] \<longrightarrow> view_contacts st = NoContactsFound)
   \<and> names_listed (view_contacts bob_alice_book) = [''Bob'', ''alice'']"
proof (intro conjI impI)
  assume "contacts st \<noteq> []"
  then show "\<exists>rows. view_contacts st = ContactList rows (length (contacts st))
         \<and> mset rows = mset (contacts st) \<and> sorted (map fst rows)"
    by (simp add: view_contacts_def)
next
  assume "contacts st = []"
  then show "view_contacts st = NoContactsFound"
    by (simp add: view_contacts_def)
next
  show "names_listed (view_contacts bob_alice_book) = [''Bob'', ''alice'']"
    by (rule view_bob_alice)
qed

theorem view_contacts_sorted_witness:
  "\<exists>rows. view_contacts alice_book = ContactList rows 1
      \<and> mset rows = {#(''Alice'', alice)#} \<and> sorted (map fst rows)"
proof -
  have "contacts alice_book \<noteq> []" by (rule alice_book_facts(4))
  with view_contacts_sorted [of alice_book] show ?thesis
    by (simp add: alice_book_facts)
qed

text \<open>
  C4 as stated fails on its own example: after \<open>Bob\<close> and then \<open>alice\<close> are added to an
  empty store, \<open>view_contacts\<close> lists \<open>Bob\<close> before \<open>alice\<close>, not \<open>alice\<close> before \<open>Bob\<close>.
\<close>

theorem view_contacts_Bob_first:
  "add_contact ''Bob'' ''555'' ''bob@example.com'' [] empty_book = Inr (Added ''Bob'', bob_book)
   \<and> add_contact ''alice'' ''123'' ''a@x.com'' ''1 Main St'' bob_book
       = Inr (Added ''alice'', bob_alice_book)
   \<and> names_listed (view_contacts bob_alice_book) = [''Bob'', ''alice'']
   \<and> names_listed (view_contacts bob_alice_book) \<noteq> [''alice'', ''Bob'']"
  by (simp add: add_bob add_alice view_bob_alice)

section \<open>Searching\<close>

text \<open>
  C5, as the code has it. On a store that is not empty the query is trimmed first. A
  query that is then empty is a \<open>ValidationError\<close>. Any other query finds exactly the
  contacts for which the trimmed query in lower case is a substring of the name in lower
  case, of the phone as it is stored, or of the email in lower case.
\<close>

theorem search_contact_matches:
  assumes "contacts st \<noteq> []"
  shows "(strip q = [] \<longrightarrow>
            search_contact q st = QueryEmpty \<and> ValidationError (search_contact q st))
       \<and> (strip q \<noteq> [] \<longrightarrow>
            (search_contact q st = NoMatch
               \<or> search_contact q st = Found (found (search_contact q st)))
            \<and> (\<forall>name d. (name, d) \<in> set (found (search_contact q st)) \<longleftrightarrow>
                  (name, d) \<in> set (contacts st)
                  \<and> (sublist (lower (strip q)) (lower name)
                       \<or> sublist (lower (strip q)) (phone d)
                       \<or> sublist (lower (strip q)) (lower (email d)))))"
  using assms by (auto simp: search_contact_def Let_def lower_Nil_iff filter_empty_conv)

theorem search_contact_matches_witness:
  "search_contact ''  '' bob_book = QueryEmpty
   \<and> (''Bob'', bob) \<in> set (found (search_contact '' EXAMPLE.com'' bob_book))"
proof -
  have ne: "contacts bob_book \<noteq> []" by (simp add: bob_book_def)
  have e: "strip ''  '' = []" by (simp add: string_eval)
  have q: "strip '' EXAMPLE.com'' \<noteq> []" by (simp add: string_eval)
  have m: "sublist (lower (strip '' EXAMPLE.com'')) (lower (email bob))"
    by (simp add: string_eval bob_def sublist_code(3))
  have k: "(''Bob'', bob) \<in> set (contacts bob_book)" by (simp add: bob_book_def)
  from search_contact_matches [OF ne, of "''  ''"] e
  have 1: "search_contact ''  '' bob_book = QueryEmpty" by simp
  from search_contact_matches [OF ne, of "'' EXAMPLE.com''"] q m k
  have 2: "(''Bob'', bob) \<in> set (found (search_contact '' EXAMPLE.com'' bob_book))"
    by blast
  from 1 2 show ?thesis by simp
qed

text \<open>
  C5 as stated fails on a query with a blank at either end. The query \<open>bob\<close> followed by
  a blank is not empty and, in lower case, is a substring of no field of the contact
  \<open>Bob\<close>, yet the search finds \<open>Bob\<close>; and the query of one blank is not empty, yet the
  search ends in the \<open>ValidationError\<close> of an empty query.
\<close>

theorem search_contact_trims_query:
  "search_contact ''bob '' bob_book = Found [(''Bob'', bob)]
   \<and> \<not> sublist (lower ''bob '') (lower ''Bob'')
   \<and> \<not> sublist (lower ''bob '') (phone bob)
   \<and> \<not> sublist (lower ''bob '') (lower (email bob))
   \<and> search_contact '' '' bob_book = QueryEmpty"
  by (simp add: search_contact_def bob_book_def bob_def Let_def string_eval sublist_code(3))

section \<open>Updating a contact\<close>

lemma update_contact_found:
  assumes "contacts st \<noteq> []" and "actual_name (strip n) (contacts st) = Some k" and "k \<noteq> []"
    and "map_of (contacts st) k = Some cur" and w: "\<not> unwritable st (filename st)"
  shows "update_contact n p e a st =
    Inr (Updated k,
      st\<lparr>contacts := AList.update k
             \<lparr>phone = (if strip p = [] then phone cur else strip p),
              email = (if strip e = [] then email cur else strip e),
              address = (if strip a = [] then address cur else strip a)\<rparr> (contacts st),
          files := (files st)(filename st \<mapsto> Holds (json_of_contacts (AList.update k
             \<lparr>phone = (if strip p = [] then phone cur else strip p),
              email = (if strip e = [] then email cur else strip e),
              address = (if strip a = [] then address cur else strip a)\<rparr> (contacts st)))),
          writes := Suc (writes st)\<rparr>)"
proof -
  obtain ph em ad where cur: "cur = \<lparr>phone = ph, email = em, address = ad\<rparr>"
    by (cases cur)
  from assms(4) have "map_of (contacts st) k = Some \<lparr>phone = ph, email = em, address = ad\<rparr>"
    by (simp add: cur)
  with assms(1-3) show ?thesis
    by (simp add: update_contact_def Let_def save_contacts_writable [OF w] cur)
qed

text \<open>
  C6, as the code has it. On a store that is not empty \<open>update_contact\<close> trims the name
  and looks it up without regard to case. When no key matches, it ends in a
  \<open>NotFoundError\<close> and the state is unchanged. When a key matches a name that is not empty
  and the file can be written, the contact under the first matching key gets, for each
  of phone, email and address, the trimmed new value if that is not empty and keeps its
  old value otherwise; no key and no other contact changes, and the store is saved. So
  with three empty values the contacts are unchanged, and with only an email given only
  the email changes.
\<close>

theorem update_contact_fields:
  assumes "contacts st \<noteq> []"
  shows
    "((\<forall>k \<in> fst ` set (contacts st). lower k \<noteq> lower (strip n)) \<longrightarrow>
        update_contact n p e a st = Inr (NotFound (strip n), st))
     \<and> ((\<exists>k \<in> fst ` set (contacts st). lower k = lower (strip n)) \<and> strip n \<noteq> []
          \<and> \<not> unwritable st (filename st) \<longrightarrow>
         (\<exists>k cur st'.
            actual_name (strip n) (contacts st) = Some k \<and> lower k = lower (strip n)
            \<and> map_of (contacts st) k = Some cur
            \<and> update_contact n p e a st = Inr (Updated k, st')
            \<and> map fst (contacts st') = map fst (contacts st)
            \<and> map_of (contacts st') =
                (map_of (contacts st))(k \<mapsto>
                   \<lparr>phone = (if strip p = [] then phone cur else strip p),
                    email = (if strip e = [] then email cur else strip e),
                    address = (if strip a = [] then address cur else strip a)\<rparr>)
            \<and> (strip p = [] \<and> strip e = [] \<and> strip a = [] \<longrightarrow> contacts st' = contacts st)
            \<and> files st' (filename st') = Some (Holds (json_of_contacts (contacts st')))))"
proof (intro conjI impI)
  assume "\<forall>k \<in> fst ` set (contacts st). lower k \<noteq> lower (strip n)"
  then have "actual_name (strip n) (contacts st) = None"
    by (simp only: actual_name_None)
  with assms show "update_contact n p e a st = Inr (NotFound (strip n), st)"
    by (simp add: update_contact_def)
next
  assume h: "(\<exists>k \<in> fst ` set (contacts st). lower k = lower (strip n)) \<and> strip n \<noteq> []
          \<and> \<not> unwritable st (filename st)"
  then obtain k where k: "actual_name (strip n) (contacts st) = Some k"
    using actual_name_found [of "contacts st" "strip n"] by blast
  then have key: "k \<in> fst ` set (contacts st)" and low: "lower k = lower (strip n)"
    by (rule actual_name_Some)+
  from h have "strip n \<noteq> []" by simp
  with low have nonempty: "k \<noteq> []"
    by (rule lower_eq_nonempty)
  from key_has_details [OF key] obtain cur where cur: "map_of (contacts st) k = Some cur" ..
  from h have w: "\<not> unwritable st (filename st)" by simp
  let ?d = "\<lparr>phone = (if strip p = [] then phone cur else strip p),
             email = (if strip e = [] then email cur else strip e),
             address = (if strip a = [] then address cur else strip a)\<rparr>"
  let ?st' = "st\<lparr>contacts := AList.update k ?d (contacts st),
      files := (files st)(filename st \<mapsto>
                 Holds (json_of_contacts (AList.update k ?d (contacts st)))),
      writes := Suc (writes st)\<rparr>"
  have run: "update_contact n p e a st = Inr (Updated k, ?st')"
    by (rule update_contact_found [OF assms k nonempty cur w])
  have keys: "map fst (contacts ?st') = map fst (contacts st)"
    using key by (simp add: update_keys)
  have vals: "map_of (contacts ?st') = (map_of (contacts st))(k \<mapsto> ?d)"
    by (simp add: update_conv')
  have "strip p = [] \<and> strip e = [] \<and> strip a = [] \<Longrightarrow> ?d = cur"
    by simp
  then have same:
    "strip p = [] \<and> strip e = [] \<and> strip a = [] \<longrightarrow> contacts ?st' = contacts st"
    using cur by (simp add: update_triv)
  have saved: "files ?st' (filename ?st') = Some (Holds (json_of_contacts (contacts ?st')))"
    by simp
  show "\<exists>k cur st'.
            actual_name (strip n) (contacts st) = Some k \<and> lower k = lower (strip n)
            \<and> map_of (contacts st) k = Some cur
            \<and> update_contact n p e a st = Inr (Updated k, st')
            \<and> map fst (contacts st') = map fst (contacts st)
            \<and> map_of (contacts st') =
                (map_of (contacts st))(k \<mapsto>
                   \<lparr>phone = (if strip p = [] then phone cur else strip p),
                    email = (if strip e = [] then email cur else strip e),
                    address = (if strip a = [] then address cur else strip a)\<rparr>)
            \<and> (strip p = [] \<and> strip e = [] \<and> strip a = [] \<longrightarrow> contacts st' = contacts st)
            \<and> files st' (filename st') = Some (Holds (json_of_contacts (contacts st')))"
    apply (rule exI [of _ k])
    apply (rule exI [of _ cur])
    apply (rule exI [of _ ?st'])
    apply (intro conjI)
           apply (rule k)
          apply (rule low)
         apply (rule cur)
        apply (rule run)
       apply (rule keys)
      apply (rule vals)
     apply (rule same)
    apply (rule saved)
    done
qed

theorem update_contact_fields_witness:
  "\<exists>st'. update_contact ''ALICE'' [] '' new@x.com '' [] alice_book = Inr (Updated ''Alice'', st')
      \<and> map_of (contacts st') ''Alice''
          = Some \<lparr>phone = ''123'', email = ''new@x.com'', address = ''1 Main St''\<rparr>"
proof -
  have s: "strip [] = []" "strip '' new@x.com '' = ''new@x.com''"
    by (simp_all add: string_eval)
  from update_contact_fields [OF alice_book_facts(4), of "''ALICE''" "[]" "'' new@x.com ''" "[]"]
    ALICE_key ALICE_matches(3) alice_book_facts(3)
  obtain k cur st' where
    k: "actual_name (strip ''ALICE'') (contacts alice_book) = Some k"
    and cur: "map_of (contacts alice_book) k = Some cur"
    and run: "update_contact ''ALICE'' [] '' new@x.com '' [] alice_book = Inr (Updated k, st')"
    and vals: "map_of (contacts st') =
                (map_of (contacts alice_book))(k \<mapsto>
                   \<lparr>phone = (if strip [] = [] then phone cur else strip []),
                    email = (if strip '' new@x.com '' = [] then email cur
                             else strip '' new@x.com ''),
                    address = (if strip [] = [] then address cur else strip [])\<rparr>)"
    by blast
  from k have k': "k = ''Alice''"
    by (simp add: actual_name_def alice_book_facts ALICE_matches)
  with cur have cur': "cur = alice"
    by (simp add: alice_book_facts)
  from run vals show ?thesis
    by (simp add: k' cur' s alice_def)
qed

text \<open>
  C6 as stated fails on the empty store: no contact matches the name \<open>Bob\<close>, yet
  \<open>update_contact\<close> ends in \<open>No contacts to update!\<close>, which is no \<open>NotFoundError\<close>.
\<close>

theorem update_contact_empty_store:
  "actual_name (strip ''Bob'') (contacts empty_book) = None
   \<and> update_contact ''Bob'' ''555'' [] [] empty_book = Inr (NoContactsToUpdate, empty_book)
   \<and> \<not> NotFoundError NoContactsToUpdate"
  by (simp add: update_contact_def empty_book_def actual_name_def)

section \<open>Deleting a contact\<close>

lemma delete_contact_found:
  assumes "contacts st \<noteq> []" and "actual_name (strip n) (contacts st) = Some k" and "k \<noteq> []"
    and "map_of (contacts st) k = Some cur"
  shows "lower (strip c) = ''y'' \<or> lower (strip c) = ''yes'' \<Longrightarrow>
      \<not> unwritable st (filename st) \<Longrightarrow>
      delete_contact n c st =
        Inr (Deleted k,
          st\<lparr>contacts := AList.delete k (contacts st),
              files := (files st)(filename st \<mapsto>
                         Holds (json_of_contacts (AList.delete k (contacts st)))),
              writes := Suc (writes st)\<rparr>)"
    and "lower (strip c) \<noteq> ''y'' \<and> lower (strip c) \<noteq> ''yes'' \<Longrightarrow>
      delete_contact n c st = Inr (Cancelled, st)"
proof -
  assume "lower (strip c) = ''y'' \<or> lower (strip c) = ''yes''"
    and w: "\<not> unwritable st (filename st)"
  with assms show "delete_contact n c st =
        Inr (Deleted k,
          st\<lparr>contacts := AList.delete k (contacts st),
              files := (files st)(filename st \<mapsto>
                         Holds (json_of_contacts (AList.delete k (contacts st)))),
              writes := Suc (writes st)\<rparr>)"
    by (simp add: delete_contact_def Let_def save_contacts_writable [OF w])
next
  assume "lower (strip c) \<noteq> ''y'' \<and> lower (strip c) \<noteq> ''yes''"
  with assms show "delete_contact n c st = Inr (Cancelled, st)"
    by (simp add: delete_contact_def Let_def)
qed

lemma actual_name_after_delete:
  assumes "unique_names cs" and "k \<in> fst ` set cs" and "lower k = lower name"
  shows "actual_name name (AList.delete k cs) = None"
proof -
  have "\<forall>k' \<in> fst ` set (AList.delete k cs). lower k' \<noteq> lower name"
  proof
    fix k' assume k': "k' \<in> fst ` set (AList.delete k cs)"
    then have neq: "k' \<noteq> k" and mem: "k' \<in> fst ` set cs"
      by (auto simp: AList.delete_eq)
    from assms(1) have "distinct (map (\<lambda>k. lower k) (map fst cs))"
      by (simp only: unique_names_def)
    then have "inj_on (\<lambda>k. lower k) (set (map fst cs))"
      by (simp only: distinct_map)
    with neq mem assms(2) have "lower k' \<noteq> lower k"
      by (auto simp: inj_on_def)
    with assms(3) show "lower k' \<noteq> lower name" by simp
  qed
  then show ?thesis by (simp only: actual_name_None)
qed

text \<open>
  C7, as the code has it. On a store that is not empty \<open>delete_contact\<close> trims the name
  and looks it up without regard to case. When no key matches, it ends in a
  \<open>NotFoundError\<close> and the state is unchanged. When a key matches a name that is not
  empty: if the trimmed confirmation in lower case is \<open>y\<close> or \<open>yes\<close> and the file can be
  written, the contact under the first matching key, and nothing else, is removed and
  the store is saved, and in a store of unique names the name is then found no more;
  on any other confirmation the state is unchanged and the outcome is \<open>Cancelled\<close>,
  which is neither of the two errors.
\<close>

theorem delete_contact_confirmed:
  assumes "contacts st \<noteq> []"
  shows
    "((\<forall>k \<in> fst ` set (contacts st). lower k \<noteq> lower (strip n)) \<longrightarrow>
        delete_contact n c st = Inr (NotFound (strip n), st))
     \<and> ((\<exists>k \<in> fst ` set (contacts st). lower k = lower (strip n)) \<and> strip n \<noteq> [] \<longrightarrow>
         (\<exists>k. actual_name (strip n) (contacts st) = Some k \<and> lower k = lower (strip n)
            \<and> ((lower (strip c) = ''y'' \<or> lower (strip c) = ''yes'')
                   \<and> \<not> unwritable st (filename st) \<longrightarrow>
                 (\<exists>st'. delete_contact n c st = Inr (Deleted k, st')
                    \<and> contacts st' = AList.delete k (contacts st)
                    \<and> map_of (contacts st') = (map_of (contacts st))(k := None)
                    \<and> files st' (filename st') = Some (Holds (json_of_contacts (contacts st')))
                    \<and> (unique_names (contacts st) \<longrightarrow>
                          actual_name (strip n) (contacts st') = None)))
            \<and> (lower (strip c) \<noteq> ''y'' \<and> lower (strip c) \<noteq> ''yes'' \<longrightarrow>
                 delete_contact n c st = Inr (Cancelled, st))))
     \<and> \<not> ValidationError Cancelled \<and> \<not> NotFoundError Cancelled"
proof (intro conjI impI)
  assume "\<forall>k \<in> fst ` set (contacts st). lower k \<noteq> lower (strip n)"
  then have "actual_name (strip n) (contacts st) = None"
    by (simp only: actual_name_None)
  with assms show "delete_contact n c st = Inr (NotFound (strip n), st)"
    by (simp add: delete_contact_def)
next
  assume h: "(\<exists>k \<in> fst ` set (contacts st). lower k = lower (strip n)) \<and> strip n \<noteq> []"
  then obtain k where k: "actual_name (strip n) (contacts st) = Some k"
    using actual_name_found [of "contacts st" "strip n"] by blast
  then have key: "k \<in> fst ` set (contacts st)" and low: "lower k = lower (strip n)"
    by (rule actual_name_Some)+
  from h have "strip n \<noteq> []" by simp
  with low have nonempty: "k \<noteq> []"
    by (rule lower_eq_nonempty)
  from key_has_details [OF key] obtain cur where cur: "map_of (contacts st) k = Some cur" ..
  let ?st' = "st\<lparr>contacts := AList.delete k (contacts st),
              files := (files st)(filename st \<mapsto>
                         Holds (json_of_contacts (AList.delete k (contacts st)))),
              writes := Suc (writes st)\<rparr>"
  have yes: "(lower (strip c) = ''y'' \<or> lower (strip c) = ''yes'')
                   \<and> \<not> unwritable st (filename st) \<longrightarrow>
                 (\<exists>st'. delete_contact n c st = Inr (Deleted k, st')
                    \<and> contacts st' = AList.delete k (contacts st)
                    \<and> map_of (contacts st') = (map_of (contacts st))(k := None)
                    \<and> files st' (filename st') = Some (Holds (json_of_contacts (contacts st')))
                    \<and> (unique_names (contacts st) \<longrightarrow>
                          actual_name (strip n) (contacts st') = None))"
  proof
    assume y: "(lower (strip c) = ''y'' \<or> lower (strip c) = ''yes'')
                   \<and> \<not> unwritable st (filename st)"
    then have run: "delete_contact n c st = Inr (Deleted k, ?st')"
      using delete_contact_found(1) [OF assms k nonempty cur] by blast
    have gone: "unique_names (contacts st) \<longrightarrow> actual_name (strip n) (contacts ?st') = None"
      using actual_name_after_delete [OF _ key low] by simp
    show "\<exists>st'. delete_contact n c st = Inr (Deleted k, st')
                    \<and> contacts st' = AList.delete k (contacts st)
                    \<and> map_of (contacts st') = (map_of (contacts st))(k := None)
                    \<and> files st' (filename st') = Some (Holds (json_of_contacts (contacts st')))
                    \<and> (unique_names (contacts st) \<longrightarrow>
                          actual_name (strip n) (contacts st') = None)"
      apply (rule exI [of _ ?st'])
      apply (intro conjI)
          apply (rule run)
         apply simp
        apply (simp add: delete_conv')
       apply simp
      apply (rule gone)
      done
  qed
  have no: "lower (strip c) \<noteq> ''y'' \<and> lower (strip c) \<noteq> ''yes'' \<longrightarrow>
                 delete_contact n c st = Inr (Cancelled, st)"
    using delete_contact_found(2) [OF assms k nonempty cur] by blast
  from k low yes no
  show "\<exists>k. actual_name (strip n) (contacts st) = Some k \<and> lower k = lower (strip n)
            \<and> ((lower (strip c) = ''y'' \<or> lower (strip c) = ''yes'')
                   \<and> \<not> unwritable st (filename st) \<longrightarrow>
                 (\<exists>st'. delete_contact n c st = Inr (Deleted k, st')
                    \<and> contacts st' = AList.delete k (contacts st)
                    \<and> map_of (contacts st') = (map_of (contacts st))(k := None)
                    \<and> files st' (filename st') = Some (Holds (json_of_contacts (contacts st')))
                    \<and> (unique_names (contacts st) \<longrightarrow>
                          actual_name (strip n) (contacts st') = None)))
            \<and> (lower (strip c) \<noteq> ''y'' \<and> lower (strip c) \<noteq> ''yes'' \<longrightarrow>
                 delete_contact n c st = Inr (Cancelled, st))"
    by (intro exI [of _ k] conjI)
qed simp_all

theorem delete_contact_confirmed_witness:
  "(\<exists>st'. delete_contact ''ALICE'' ''Y'' alice_book = Inr (Deleted ''Alice'', st')
      \<and> contacts st' = [] \<and> actual_name ''ALICE'' (contacts st') = None)
   \<and> delete_contact ''ALICE'' ''n'' alice_book = Inr (Cancelled, alice_book)"
proof -
  have y: "lower (strip ''Y'') = ''y''" and n: "lower (strip ''n'') = ''n''"
    by (simp_all add: string_eval)
  have u: "unique_names (contacts alice_book)"
    by (simp add: unique_names_def alice_book_facts)
  from delete_contact_confirmed [OF alice_book_facts(4), of "''ALICE''" "''Y''"]
    ALICE_key ALICE_matches(3)
  obtain k where
    k: "actual_name (strip ''ALICE'') (contacts alice_book) = Some k"
    and yes: "(lower (strip ''Y'') = ''y'' \<or> lower (strip ''Y'') = ''yes'')
                   \<and> \<not> unwritable alice_book (filename alice_book) \<longrightarrow>
                 (\<exists>st'. delete_contact ''ALICE'' ''Y'' alice_book = Inr (Deleted k, st')
                    \<and> contacts st' = AList.delete k (contacts alice_book)
                    \<and> map_of (contacts st') = (map_of (contacts alice_book))(k := None)
                    \<and> files st' (filename st') = Some (Holds (json_of_contacts (contacts st')))
                    \<and> (unique_names (contacts alice_book) \<longrightarrow>
                          actual_name (strip ''ALICE'') (contacts st') = None))"
    by blast
  from k have k': "k = ''Alice''"
    by (simp add: actual_name_def alice_book_facts ALICE_matches)
  from yes y u alice_book_facts(3) obtain st' where
    "delete_contact ''ALICE'' ''Y'' alice_book = Inr (Deleted k, st')"
    and "contacts st' = AList.delete k (contacts alice_book)"
    and "actual_name (strip ''ALICE'') (contacts st') = None"
    by blast
  then have first: "\<exists>st'. delete_contact ''ALICE'' ''Y'' alice_book = Inr (Deleted ''Alice'', st')
      \<and> contacts st' = [] \<and> actual_name ''ALICE'' (contacts st') = None"
    by (simp add: k' alice_book_facts ALICE_matches)
  from delete_contact_confirmed [OF alice_book_facts(4), of "''ALICE''" "''n''"]
    ALICE_key ALICE_matches(3) n
  have "delete_contact ''ALICE'' ''n'' alice_book = Inr (Cancelled, alice_book)"
    by auto
  with first show ?thesis by simp
qed

text \<open>
  C7 as stated fails on the empty store: no contact matches the name \<open>Bob\<close>, yet
  \<open>delete_contact\<close> ends in \<open>No contacts to delete!\<close>, which is no \<open>NotFoundError\<close>. It
  also fails on a confirmation with blanks around it: \<open>y\<close> between two blanks equals
  neither \<open>y\<close> nor \<open>yes\<close>, whatever the case, yet the contact is removed.
\<close>

theorem delete_contact_empty_store:
  "actual_name (strip ''Bob'') (contacts empty_book) = None
   \<and> delete_contact ''Bob'' ''y'' empty_book = Inr (NoContactsToDelete, empty_book)
   \<and> \<not> NotFoundError NoContactsToDelete
   \<and> lower '' y '' \<noteq> ''y'' \<and> lower '' y '' \<noteq> ''yes''
   \<and> delete_contact ''Alice'' '' y '' alice_book
       = Inr (Deleted ''Alice'',
              alice_book\<lparr>contacts := [],
                files := no_files(''contacts.json'' \<mapsto> Holds (json_of_contacts [])),
                writes := 2\<rparr>)"
  by (simp add: delete_contact_def empty_book_def actual_name_def alice_book_def
      all_writable_def save_contacts_def Let_def string_eval)

section \<open>Looking up what was added\<close>

lemma is_space_lower_char: "is_space (lower_char c) = is_space c"
  by (auto simp: is_space_def lower_char_def Let_def)

lemma dropWhile_hd: "s \<noteq> [] \<Longrightarrow> \<not> P (hd s) \<Longrightarrow> dropWhile P s = s"
  by (cases s) auto

lemma strip_fixed:
  assumes "s \<noteq> []" and "\<not> is_space (hd s)" and "\<not> is_space (last s)"
  shows "strip s = s"
proof -
  from assms have "dropWhile is_space s = s" by (simp add: dropWhile_hd)
  moreover from assms have "dropWhile is_space (rev s) = rev s"
    by (simp add: dropWhile_hd hd_rev)
  ultimately show ?thesis by (simp add: strip_def)
qed

lemma last_dropWhile: "dropWhile P xs \<noteq> [] \<Longrightarrow> last (dropWhile P xs) = last xs"
  by (induction xs) (auto split: if_splits)

lemma strip_ends:
  assumes "strip s \<noteq> []"
  shows "\<not> is_space (hd (strip s))" and "\<not> is_space (last (strip s))"
proof -
  let ?d = "dropWhile is_space s"
  let ?r = "dropWhile is_space (rev ?d)"
  from assms have r: "?r \<noteq> []" by (simp add: strip_def)
  have d: "?d \<noteq> []"
  proof
    assume "?d = []"
    with r show False by simp
  qed
  have "hd (strip s) = last ?r" using r by (simp add: strip_def hd_rev)
  also have "\<dots> = last (rev ?d)" using r by (rule last_dropWhile)
  also have "\<dots> = hd ?d" using d by (simp add: last_rev)
  finally have "hd (strip s) = hd ?d" .
  with hd_dropWhile [OF d] show "\<not> is_space (hd (strip s))" by simp
  have "last (strip s) = hd ?r" using r by (simp add: strip_def last_rev)
  with hd_dropWhile [OF r] show "\<not> is_space (last (strip s))" by simp
qed

lemma strip_case_variant:
  assumes "lower q = lower (strip n)" and "strip n \<noteq> []"
  shows "strip q = q"
proof -
  from assms have q: "q \<noteq> []" by (rule lower_eq_nonempty)
  have "is_space (hd q) = is_space (hd (lower q))"
    using q by (simp add: lower_def hd_map is_space_lower_char)
  also have "\<dots> = is_space (hd (strip n))"
    using assms by (simp add: lower_def hd_map is_space_lower_char)
  finally have h: "\<not> is_space (hd q)" using strip_ends(1) [OF assms(2)] by simp
  have "is_space (last q) = is_space (last (lower q))"
    using q by (simp add: lower_def last_map is_space_lower_char)
  also have "\<dots> = is_space (last (strip n))"
    using assms by (simp add: lower_def last_map is_space_lower_char)
  finally have l: "\<not> is_space (last q)" using strip_ends(2) [OF assms(2)] by simp
  from q h l show ?thesis by (rule strip_fixed)
qed

lemma add_contact_fresh:
  assumes "strip n \<noteq> []" and "\<forall>k \<in> fst ` set (contacts st). lower k \<noteq> lower (strip n)"
    and "strip p \<noteq> []" and w: "\<not> unwritable st (filename st)"
  shows "add_contact n p e a st =
    Inr (Added (strip n),
      st\<lparr>contacts :=
            contacts st @ [(strip n, \<lparr>phone = strip p, email = strip e, address = strip a\<rparr>)],
          files := (files st)(filename st \<mapsto> Holds (json_of_contacts
            (contacts st @
               [(strip n, \<lparr>phone = strip p, email = strip e, address = strip a\<rparr>)]))),
          writes := Suc (writes st)\<rparr>)"
proof -
  from assms(2) have "lower (strip n) \<notin> set (map (\<lambda>k. lower k) (map fst (contacts st)))"
    by (simp only: duplicate_name_iff) blast
  moreover from assms(2) have "strip n \<notin> fst ` set (contacts st)"
    by (rule fresh_key)
  ultimately show ?thesis
    using assms(1,3)
    by (simp add: add_contact_def Let_def save_contacts_writable [OF w] update_fresh)
qed

lemma filter_fresh:
  assumes "\<forall>k \<in> set ks. f k \<noteq> y"
  shows "filter (\<lambda>k. f k = y) ks = []"
  using assms by (simp add: filter_empty_conv)

lemma find_fresh:
  assumes "\<forall>k \<in> set ks. \<not> P k" and "P x"
  shows "find P (ks @ [x]) = Some x"
  using assms by (induction ks) auto

lemma unique_names_snoc:
  assumes "unique_names cs" and "\<forall>k \<in> fst ` set cs. lower k \<noteq> lower name"
  shows "unique_names (cs @ [(name, d)])"
  using assms by (auto simp: unique_names_def)

lemma distinct_occurs_once:
  "distinct xs \<Longrightarrow> length (filter (\<lambda>x. x = y) xs) \<le> 1"
  by (induction xs) (auto simp: filter_empty_conv)

lemma unique_names_matches:
  assumes "unique_names cs"
  shows "length (filter (\<lambda>k. lower k = lower q) (map fst cs)) \<le> 1"
proof -
  from assms have "distinct (map (\<lambda>k. lower k) (map fst cs))"
    by (simp only: unique_names_def)
  then have "length (filter (\<lambda>x. x = lower q) (map (\<lambda>k. lower k) (map fst cs))) \<le> 1"
    by (rule distinct_occurs_once)
  moreover have "length (filter (\<lambda>x. x = lower q) (map (\<lambda>k. lower k) (map fst cs)))
      = length (filter (\<lambda>k. lower k = lower q) (map fst cs))"
    by (simp add: filter_map comp_def)
  ultimately show ?thesis by simp
qed

text \<open>
  C8. When \<open>add_contact\<close> is given a name and a phone that are not empty once trimmed, no
  key has the lower case of the trimmed name and the file can be written, it succeeds:
  the contact is stored last, under the trimmed name in the casing it was given, with
  the trimmed fields. Every string \<open>q\<close> with the lower case of that name is unchanged by
  trimming, the lookup of \<open>q\<close> returns the new key, and that key is the only one
  matching \<open>q\<close>. If the names of the store were unique before, they are unique after,
  and then any name at all matches at most one key.
\<close>

theorem add_contact_then_lookup:
  assumes "strip n \<noteq> []"
    and "\<forall>k \<in> fst ` set (contacts st). lower k \<noteq> lower (strip n)"
    and "strip p \<noteq> []"
    and "\<not> unwritable st (filename st)"
  shows "\<exists>st'. add_contact n p e a st = Inr (Added (strip n), st')
      \<and> contacts st' =
          contacts st @ [(strip n, \<lparr>phone = strip p, email = strip e, address = strip a\<rparr>)]
      \<and> map_of (contacts st') (strip n) =
          Some \<lparr>phone = strip p, email = strip e, address = strip a\<rparr>
      \<and> (\<forall>q. lower q = lower (strip n) \<longrightarrow>
            strip q = q \<and> actual_name q (contacts st') = Some (strip n)
            \<and> filter (\<lambda>k. lower k = lower q) (map fst (contacts st')) = [strip n])
      \<and> (unique_names (contacts st) \<longrightarrow>
            unique_names (contacts st')
            \<and> (\<forall>q. length (filter (\<lambda>k. lower k = lower q) (map fst (contacts st'))) \<le> 1))"
proof -
  let ?d = "\<lparr>phone = strip p, email = strip e, address = strip a\<rparr>"
  let ?cs = "contacts st @ [(strip n, ?d)]"
  let ?st' = "st\<lparr>contacts := ?cs,
      files := (files st)(filename st \<mapsto> Holds (json_of_contacts ?cs)),
      writes := Suc (writes st)\<rparr>"
  have run: "add_contact n p e a st = Inr (Added (strip n), ?st')"
    by (rule add_contact_fresh [OF assms])
  have cs: "contacts ?st' = ?cs" by simp
  from assms(2) have "strip n \<notin> fst ` set (contacts st)" by (rule fresh_key)
  then have "map_of (contacts st) (strip n) = None"
    by (simp add: map_of_eq_None_iff)
  then have val: "map_of (contacts ?st') (strip n) = Some ?d"
    by (simp add: map_add_def)
  have look: "\<forall>q. lower q = lower (strip n) \<longrightarrow>
            strip q = q \<and> actual_name q (contacts ?st') = Some (strip n)
            \<and> filter (\<lambda>k. lower k = lower q) (map fst (contacts ?st')) = [strip n]"
  proof (intro allI impI conjI)
    fix q assume q: "lower q = lower (strip n)"
    from q assms(1) show "strip q = q" by (rule strip_case_variant)
    from assms(2) q have none: "\<forall>k \<in> set (map fst (contacts st)). lower k \<noteq> lower q"
      by simp
    then have "find (\<lambda>k. lower k = lower q) (map fst (contacts st) @ [strip n]) = Some (strip n)"
      using q by (intro find_fresh) auto
    then show "actual_name q (contacts ?st') = Some (strip n)"
      by (simp add: actual_name_def)
    from none have "filter (\<lambda>k. lower k = lower q) (map fst (contacts st)) = []"
      by (rule filter_fresh)
    with q show "filter (\<lambda>k. lower k = lower q) (map fst (contacts ?st')) = [strip n]"
      by simp
  qed
  have inv: "unique_names (contacts st) \<longrightarrow>
            unique_names (contacts ?st')
            \<and> (\<forall>q. length (filter (\<lambda>k. lower k = lower q) (map fst (contacts ?st'))) \<le> 1)"
  proof (intro impI conjI allI)
    assume u: "unique_names (contacts st)"
    then have u': "unique_names ?cs" using assms(2) by (rule unique_names_snoc)
    then show "unique_names (contacts ?st')" by simp
    fix q
    from unique_names_matches [OF u', of q]
    show "length (filter (\<lambda>k. lower k = lower q) (map fst (contacts ?st'))) \<le> 1"
      by simp
  qed
  show ?thesis
    apply (rule exI [of _ ?st'])
    apply (intro conjI)
        apply (rule run)
       apply (rule cs)
      apply (rule val)
     apply (rule look)
    apply (rule inv)
    done
qed

theorem add_contact_then_lookup_witness:
  "\<exists>st'. add_contact ''Alice'' ''123'' ''a@x.com'' ''1 Main St'' empty_book
            = Inr (Added ''Alice'', st')
      \<and> contacts st' = [(''Alice'', alice)]
      \<and> actual_name ''ALICE'' (contacts st') = Some ''Alice''
      \<and> map_of (contacts st') ''Alice'' = Some alice"
proof -
  have s: "strip ''Alice'' = ''Alice''" "strip ''123'' = ''123''" "strip ''a@x.com'' = ''a@x.com''"
    "strip ''1 Main St'' = ''1 Main St''"
    by (simp_all add: string_eval)
  have l: "lower ''ALICE'' = lower ''Alice''"
    by (simp add: string_eval)
  have 1: "strip ''Alice'' \<noteq> []" and 3: "strip ''123'' \<noteq> []"
    by (simp_all add: s)
  have 2: "\<forall>k \<in> fst ` set (contacts empty_book). lower k \<noteq> lower (strip ''Alice'')"
    by (simp add: empty_book_def)
  have 4: "\<not> unwritable empty_book (filename empty_book)"
    by (simp add: empty_book_def all_writable_def)
  from add_contact_then_lookup [OF 1 2 3 4, of "''a@x.com''" "''1 Main St''"]
  obtain st' where
    "add_contact ''Alice'' ''123'' ''a@x.com'' ''1 Main St'' empty_book
       = Inr (Added (strip ''Alice''), st')"
    and "contacts st' = contacts empty_book @
       [(strip ''Alice'', \<lparr>phone = strip ''123'', email = strip ''a@x.com'',
           address = strip ''1 Main St''\<rparr>)]"
    and "map_of (contacts st') (strip ''Alice'') =
          Some \<lparr>phone = strip ''123'', email = strip ''a@x.com'', address = strip ''1 Main St''\<rparr>"
    and "\<forall>q. lower q = lower (strip ''Alice'') \<longrightarrow>
            strip q = q \<and> actual_name q (contacts st') = Some (strip ''Alice'')
            \<and> filter (\<lambda>k. lower k = lower q) (map fst (contacts st')) = [strip ''Alice'']"
    by blast
  with l show ?thesis
    by (simp add: s alice_def empty_book_def)
qed

section \<open>The invariant of unique names\<close>

lemma add_contact_unique_names:
  assumes "unique_names (contacts st)" and "add_contact n p e a st = Inr (out, st')"
  shows "unique_names (contacts st')"
proof (cases "strip n = [] \<or> (\<exists>k \<in> fst ` set (contacts st). lower k = lower (strip n))
    \<or> strip p = []")
  case True
  with assms(2) have "st' = st"
    unfolding add_contact_def Let_def duplicate_name_iff
    by (auto simp: save_contacts_def split: if_splits sum.splits)
  with assms(1) show ?thesis by simp
next
  case False
  then have 1: "strip n \<noteq> []" and 3: "strip p \<noteq> []"
    and 2: "\<forall>k \<in> fst ` set (contacts st). lower k \<noteq> lower (strip n)"
    by auto
  show ?thesis
  proof (cases "unwritable st (filename st)")
    case True
    with 1 2 3 have "add_contact n p e a st = Inl (Raised PermissionError)"
      unfolding add_contact_def Let_def duplicate_name_iff
      by (auto simp: save_contacts_def)
    with assms(2) show ?thesis by simp
  next
    case False
    from add_contact_fresh [OF 1 2 3 False, of e a] assms(2)
    have "contacts st' =
        contacts st @ [(strip n, \<lparr>phone = strip p, email = strip e, address = strip a\<rparr>)]"
      by auto
    with unique_names_snoc [OF assms(1) 2] show ?thesis by simp
  qed
qed

lemma update_contact_keys:
  assumes "update_contact n p e a st = Inr (out, st')"
  shows "map fst (contacts st') = map fst (contacts st)"
proof (cases "actual_name (strip n) (contacts st)")
  case None
  with assms show ?thesis
    by (auto simp: update_contact_def split: if_splits)
next
  case (Some k)
  then have key: "k \<in> fst ` set (contacts st)" by (rule actual_name_Some)
  from key_has_details [OF key] obtain cur where cur: "map_of (contacts st) k = Some cur" ..
  have "map fst (AList.update k d (contacts st)) = map fst (contacts st)" for d
    using key by (simp add: update_keys)
  with assms Some cur show ?thesis
    by (auto simp: update_contact_def Let_def save_contacts_def split: if_splits)
qed

lemma update_contact_unique_names:
  assumes "unique_names (contacts st)" and "update_contact n p e a st = Inr (out, st')"
  shows "unique_names (contacts st')"
  using update_contact_keys [OF assms(2)] assms(1) by (simp add: unique_names_def)

lemma unique_names_delete:
  assumes "unique_names cs"
  shows "unique_names (AList.delete k cs)"
proof -
  from assms have "distinct (map (\<lambda>k. lower k) (map fst cs))"
    by (simp only: unique_names_def)
  then have "distinct (map (\<lambda>k. lower k) (filter (\<lambda>k'. k' \<noteq> k) (map fst cs)))"
    by (rule distinct_map_filter)
  moreover have "map fst (AList.delete k cs) = filter (\<lambda>k'. k' \<noteq> k) (map fst cs)"
    by (induction cs) auto
  ultimately show ?thesis by (simp only: unique_names_def)
qed

lemma delete_contact_contacts:
  assumes "delete_contact n c st = Inr (out, st')"
  shows "contacts st' = contacts st \<or> (\<exists>k. contacts st' = AList.delete k (contacts st))"
  using assms
  by (auto simp: delete_contact_def Let_def save_contacts_def
      split: if_splits option.splits)

lemma delete_contact_unique_names:
  assumes "unique_names (contacts st)" and "delete_contact n c st = Inr (out, st')"
  shows "unique_names (contacts st')"
  using delete_contact_contacts [OF assms(2)] assms(1) unique_names_delete by auto

lemma serve_unique_names:
  assumes "unique_names (contacts st)" and "serve cmd st = Inr (out, st')"
  shows "unique_names (contacts st')"
proof (cases cmd)
  case (Add n p e a)
  with assms show ?thesis by (simp add: add_contact_unique_names)
next
  case (Update n p e a)
  with assms show ?thesis by (simp add: update_contact_unique_names)
next
  case (Delete n c)
  with assms show ?thesis by (simp add: delete_contact_unique_names)
qed (use assms in auto)

lemma run_unique_names:
  assumes "unique_names (contacts st)" and "run cmds st = Inr (outs, st')"
  shows "unique_names (contacts st')"
  using assms
proof (induction cmds arbitrary: st outs)
  case Nil
  then show ?case by simp
next
  case (Cons cmd cmds)
  show ?case
  proof (cases "cmd = Exit")
    case True
    with Cons.prems show ?thesis by simp
  next
    case False
    then have eq: "run (cmd # cmds) st =
       (case serve cmd st of
          Inl e \<Rightarrow> Inl e
        | Inr (out, st1) \<Rightarrow>
          (case run cmds st1 of
             Inl e \<Rightarrow> Inl e
           | Inr (outs, st2) \<Rightarrow> Inr (out # outs, st2)))"
      by (cases cmd) simp_all
    with Cons.prems(2) obtain out st1 outs1 where
      s: "serve cmd st = Inr (out, st1)" and r: "run cmds st1 = Inr (outs1, st')"
      by (auto split: sum.splits)
    from serve_unique_names [OF Cons.prems(1) s] have "unique_names (contacts st1)" .
    from Cons.IH [OF this r] show ?thesis .
  qed
qed

lemma run_bob_alice:
  "run [Add ''Bob'' ''555'' ''bob@example.com'' [], Add ''alice'' ''123'' ''a@x.com'' ''1 Main St'']
     empty_book = Inr ([Added ''Bob'', Added ''alice''], bob_alice_book)"
  by (simp add: add_bob add_alice)

text \<open>
  C9. From a store in which no two keys have the same lower case, \<open>add_contact\<close>,
  \<open>update_contact\<close> and \<open>delete_contact\<close> each lead to such a store again:
  \<open>update_contact\<close> leaves the keys as they are and \<open>delete_contact\<close> adds none. So does
  every sequence of turns of the menu loop; the empty store is such a store.
\<close>

theorem unique_names_invariant:
  assumes "unique_names (contacts st)"
  shows "(\<forall>out st'. add_contact n p e a st = Inr (out, st') \<longrightarrow> unique_names (contacts st'))
    \<and> (\<forall>out st'. update_contact n p e a st = Inr (out, st') \<longrightarrow>
          map fst (contacts st') = map fst (contacts st) \<and> unique_names (contacts st'))
    \<and> (\<forall>out st'. delete_contact n c st = Inr (out, st') \<longrightarrow>
          set (map fst (contacts st')) \<subseteq> set (map fst (contacts st))
          \<and> unique_names (contacts st'))
    \<and> (\<forall>cmds outs st'. run cmds st = Inr (outs, st') \<longrightarrow> unique_names (contacts st'))"
proof (intro conjI allI impI)
  fix out st' assume "add_contact n p e a st = Inr (out, st')"
  with assms show "unique_names (contacts st')" by (rule add_contact_unique_names)
next
  fix out st' assume u: "update_contact n p e a st = Inr (out, st')"
  then show "map fst (contacts st') = map fst (contacts st)" by (rule update_contact_keys)
  from assms u show "unique_names (contacts st')" by (rule update_contact_unique_names)
next
  fix out st' assume d: "delete_contact n c st = Inr (out, st')"
  from delete_contact_contacts [OF d]
  show "set (map fst (contacts st')) \<subseteq> set (map fst (contacts st))"
    by (auto simp: AList.delete_eq)
  from assms d show "unique_names (contacts st')" by (rule delete_contact_unique_names)
next
  fix cmds outs st' assume "run cmds st = Inr (outs, st')"
  with assms show "unique_names (contacts st')" by (rule run_unique_names)
qed

theorem unique_names_invariant_witness:
  "unique_names (contacts empty_book)
   \<and> run [Add ''Bob'' ''555'' ''bob@example.com'' [], Add ''alice'' ''123'' ''a@x.com'' ''1 Main St'']
       empty_book = Inr ([Added ''Bob'', Added ''alice''], bob_alice_book)
   \<and> unique_names (contacts bob_alice_book)"
proof -
  have u: "unique_names (contacts empty_book)"
    by (simp add: unique_names_def empty_book_def)
  from unique_names_invariant [OF u] run_bob_alice
  have "unique_names (contacts bob_alice_book)" by blast
  with u run_bob_alice show ?thesis by simp
qed

section \<open>The empty store\<close>

text \<open>
  C10. On the empty store \<open>search_contact\<close>, \<open>update_contact\<close> and \<open>delete_contact\<close> end at
  once in \<open>No contacts to search!\<close>, \<open>No contacts to update!\<close> and
  \<open>No contacts to delete!\<close>, whatever the query, the name and the other answers are, and
  leave the state as it is; none of the three outcomes is a \<open>ValidationError\<close> or a
  \<open>NotFoundError\<close>.
\<close>

theorem empty_store_short_circuit:
  assumes "contacts st = []"
  shows "search_contact q st = NoContactsToSearch
       \<and> update_contact n p e a st = Inr (NoContactsToUpdate, st)
       \<and> delete_contact n c st = Inr (NoContactsToDelete, st)
       \<and> \<not> ValidationError NoContactsToSearch \<and> \<not> NotFoundError NoContactsToSearch
       \<and> \<not> ValidationError NoContactsToUpdate \<and> \<not> NotFoundError NoContactsToUpdate
       \<and> \<not> ValidationError NoContactsToDelete \<and> \<not> NotFoundError NoContactsToDelete"
  using assms by (simp add: search_contact_def update_contact_def delete_contact_def)

theorem empty_store_short_circuit_witness:
  "search_contact [] empty_book = NoContactsToSearch
   \<and> update_contact ''Bob'' ''1'' [] [] empty_book = Inr (NoContactsToUpdate, empty_book)
   \<and> delete_contact ''Bob'' ''y'' empty_book = Inr (NoContactsToDelete, empty_book)"
proof -
  have "contacts empty_book = []" by (simp add: empty_book_def)
  from empty_store_short_circuit
    [where st = empty_book and q = "[]" and n = "''Bob''" and p = "''1''" and e = "[]"
       and a = "[]" and c = "''y''", OF this]
  show ?thesis by simp
qed

end
